theory Spec2Isabelle
  imports Complex_Main
begin

section \<open>The signalling server of the Gaussian viewer (main.py)\<close>

text \<open>
  A shallow embedding of \<^verbatim>\<open>main.py\<close>: the frame decoding helper \<^verbatim>\<open>parse_frame\<close>, the
  retry loop of \<^verbatim>\<open>FrameProducer.recv\<close>, the ICE candidate regular expression of
  \<^verbatim>\<open>add_ice_candidate\<close>, and the session dictionary with the handlers that create and
  delete its entries. Library objects (the renderer, the H264 codec context, the peer
  connection) are external: their behaviour is a parameter of the model, and their
  mutable state is threaded through explicitly.
\<close>

subsection \<open>Exceptions\<close>

text \<open>
  Every constructor is a subclass of Python's \<^verbatim>\<open>Exception\<close>, so an
  \<^verbatim>\<open>except Exception\<close> clause catches each of them. \<open>LibraryError\<close> stands for whatever a
  library call raises (PyAV, the renderer, aiortc, json).
\<close>

datatype exc =
    KeyError string
  | AttributeError string
  | UnboundLocalError string
  | Exception string
  | LibraryError string

subsection \<open>parse\_frame\<close>

type_synonym bytes = "nat list"

type_synonym packet = bytes

record frame =
  image :: bytes
  pts :: "int option"
  time_base :: "(int \<times> int) option"

text \<open>
  The codec context \<^verbatim>\<open>container\<close>: \<^verbatim>\<open>container.parse(data)\<close> and
  \<^verbatim>\<open>container.decode(packet)\<close> either raise or return a list, and both change the
  context's internal state \<open>'c\<close>.
\<close>

record 'c codec =
  cparse :: "'c \<Rightarrow> bytes \<Rightarrow> (exc + packet list) \<times> 'c"
  cdecode :: "'c \<Rightarrow> packet \<Rightarrow> (exc + frame list) \<times> 'c"

text \<open>
  The loop \<^verbatim>\<open>for packet in packets: frames = container.decode(packet); for frame in
  frames: return frame\<close>. A packet that decodes to no frame moves on to the next packet;
  the first frame of the first non-empty result is returned at once.
\<close>

fun decode_packets :: "'c codec \<Rightarrow> 'c \<Rightarrow> packet list \<Rightarrow> (exc + frame option) \<times> 'c" where
  "decode_packets K c [] = (Inr None, c)"
| "decode_packets K c (p # ps) =
     (case cdecode K c p of
        (Inl e, c') \<Rightarrow> (Inl e, c')
      | (Inr [], c') \<Rightarrow> decode_packets K c' ps
      | (Inr (f # fs), c') \<Rightarrow> (Inr (Some f), c'))"

text \<open>The body of the \<^verbatim>\<open>try\<close> block, followed by the final \<^verbatim>\<open>return None\<close>.\<close>

definition parse_frame_try :: "'c codec \<Rightarrow> 'c \<Rightarrow> bytes \<Rightarrow> (exc + frame option) \<times> 'c" where
  "parse_frame_try K c data =
     (case cparse K c data of
        (Inl e, c') \<Rightarrow> (Inl e, c')
      | (Inr packets, c') \<Rightarrow> decode_packets K c' packets)"

record 'c parsed =
  p_result :: "frame option"
  p_context :: 'c
  logged :: "exc list"

text \<open>
  \<^verbatim>\<open>parse_frame\<close>: the \<^verbatim>\<open>except Exception\<close> clause logs the exception and falls through to
  \<^verbatim>\<open>return None\<close>.
\<close>

definition parse_frame :: "'c codec \<Rightarrow> 'c \<Rightarrow> bytes \<Rightarrow> 'c parsed" where
  "parse_frame K c data =
     (case parse_frame_try K c data of
        (Inl e, c') \<Rightarrow> \<lparr>p_result = None, p_context = c', logged = [e]\<rparr>
      | (Inr r, c') \<Rightarrow> \<lparr>p_result = r, p_context = c', logged = []\<rparr>)"

text \<open>
  For comparison: every frame that decoding all the packets in order would yield, up to
  the first decoding error.
\<close>

fun decode_all :: "'c codec \<Rightarrow> 'c \<Rightarrow> packet list \<Rightarrow> frame list" where
  "decode_all K c [] = []"
| "decode_all K c (p # ps) =
     (case cdecode K c p of
        (Inl e, c') \<Rightarrow> []
      | (Inr fs, c') \<Rightarrow> fs @ decode_all K c' ps)"

definition first_frame :: "frame list \<Rightarrow> frame option" where
  "first_frame fs = (case fs of [] \<Rightarrow> None | f # _ \<Rightarrow> Some f)"

subsection \<open>FrameProducer.recv\<close>

text \<open>
  The renderer is external: \<^verbatim>\<open>render()\<close> raises, returns \<^verbatim>\<open>None\<close>, or returns bytes, and
  changes the renderer's state \<open>'r\<close>.
\<close>

record ('r, 'c) pipeline =
  render :: "'r \<Rightarrow> (exc + bytes option) \<times> 'r"
  container :: "'c codec"

text \<open>
  The local variable \<^verbatim>\<open>frame\<close> of \<^verbatim>\<open>recv\<close> is unbound until the first call of
  \<^verbatim>\<open>parse_frame\<close> returns.
\<close>

datatype 'a local_var = Unbound | Bound 'a

datatype ('r, 'c) attempt =
    Break "frame option local_var" 'r 'c
  | Continue nat "frame option local_var" 'r 'c

definition max_failed_attempts :: nat where
  "max_failed_attempts = 10"

text \<open>The \<^verbatim>\<open>except Exception\<close> clause of the loop.\<close>

definition on_exception ::
  "nat \<Rightarrow> frame option local_var \<Rightarrow> 'r \<Rightarrow> 'c \<Rightarrow> ('r, 'c) attempt" where
  "on_exception failed_attempts fv r c =
     (if failed_attempts + 1 \<ge> max_failed_attempts
      then Break fv r c
      else Continue (failed_attempts + 1) fv r c)"

text \<open>
  One iteration of \<^verbatim>\<open>while True\<close>. When \<^verbatim>\<open>render()\<close> returns \<^verbatim>\<open>None\<close> or an empty
  buffer the \<^verbatim>\<open>if\<close> has no \<^verbatim>\<open>else\<close>: nothing is raised, the counter is not touched,
  and the loop goes round again.
\<close>

definition attempt ::
  "('r, 'c) pipeline \<Rightarrow> nat \<Rightarrow> frame option local_var \<Rightarrow> 'r \<Rightarrow> 'c \<Rightarrow> ('r, 'c) attempt" where
  "attempt P failed_attempts fv r c =
     (case render P r of
        (Inl e, r') \<Rightarrow> on_exception failed_attempts fv r' c
      | (Inr None, r') \<Rightarrow> Continue failed_attempts fv r' c
      | (Inr (Some data), r') \<Rightarrow>
          (if length data > 0
           then (case p_result (parse_frame (container P) c data) of
                   Some f \<Rightarrow>
                     Break (Bound (Some f)) r' (p_context (parse_frame (container P) c data))
                 | None \<Rightarrow>
                     on_exception failed_attempts (Bound None) r'
                       (p_context (parse_frame (container P) c data)))
           else Continue failed_attempts fv r' c))"

text \<open>The loop may run forever: not returning is the value \<open>None\<close>.\<close>

partial_function (option) recv_loop ::
  "('r, 'c) pipeline \<Rightarrow> nat \<Rightarrow> frame option local_var \<Rightarrow> 'r \<Rightarrow> 'c \<Rightarrow>
     (frame option local_var \<times> 'r \<times> 'c) option" where
  "recv_loop P failed_attempts fv r c =
     (case attempt P failed_attempts fv r c of
        Break fv' r' c' \<Rightarrow> Some (fv', r', c')
      | Continue n fv' r' c' \<Rightarrow> recv_loop P n fv' r' c')"

declare recv_loop.simps [code]

text \<open>
  The first \<open>j\<close> iterations of the loop: \<open>Break\<close> when the loop has ended within them,
  otherwise \<open>Continue\<close> with the counter, the variable and the states after the \<open>j\<close>-th.
  Each iteration calls \<^verbatim>\<open>render()\<close> once.
\<close>

fun attempts ::
  "('r, 'c) pipeline \<Rightarrow> nat \<Rightarrow> nat \<Rightarrow> frame option local_var \<Rightarrow> 'r \<Rightarrow> 'c \<Rightarrow> ('r, 'c) attempt" where
  "attempts P 0 failed_attempts fv r c = Continue failed_attempts fv r c"
| "attempts P (Suc j) failed_attempts fv r c =
     (case attempt P failed_attempts fv r c of
        Break fv' r' c' \<Rightarrow> Break fv' r' c'
      | Continue n fv' r' c' \<Rightarrow> attempts P j n fv' r' c')"

text \<open>
  \<^verbatim>\<open>recv\<close>. The result of \<^verbatim>\<open>await self.next_timestamp()\<close> (inherited from the library's
  track class) is the argument \<open>next_timestamp\<close>. After the loop, \<^verbatim>\<open>frame.pts = pts\<close>
  raises \<^verbatim>\<open>UnboundLocalError\<close> when \<^verbatim>\<open>frame\<close> was never assigned and \<^verbatim>\<open>AttributeError\<close>
  when it is \<^verbatim>\<open>None\<close>.
\<close>

definition recv ::
  "('r, 'c) pipeline \<Rightarrow> exc + (int \<times> (int \<times> int)) \<Rightarrow> 'r \<Rightarrow> 'c \<Rightarrow>
     ((exc + frame) \<times> 'r \<times> 'c) option" where
  "recv P next_timestamp r c =
     (case next_timestamp of
        Inl e \<Rightarrow> Some (Inl e, r, c)
      | Inr (t, tb) \<Rightarrow>
          (case recv_loop P 0 Unbound r c of
             None \<Rightarrow> None
           | Some (Unbound, r', c') \<Rightarrow> Some (Inl (UnboundLocalError ''frame''), r', c')
           | Some (Bound None, r', c') \<Rightarrow> Some (Inl (AttributeError ''pts''), r', c')
           | Some (Bound (Some f), r', c') \<Rightarrow>
               Some (Inr (f\<lparr>pts := Some t, time_base := Some tb\<rparr>), r', c')))"

subsection \<open>The ICE candidate pattern\<close>

text \<open>
  Strings are ASCII strings. On ASCII, \<^verbatim>\<open>\d\<close> is a decimal digit, \<^verbatim>\<open>\w\<close> a letter, a digit
  or the underscore, and \<^verbatim>\<open>\s\<close> one of the characters for which \<^verbatim>\<open>str.isspace\<close> holds.
\<close>

definition is_ascii :: "char \<Rightarrow> bool" where
  "is_ascii c = (of_char c < (128::nat))"

definition is_digit :: "char \<Rightarrow> bool" where
  "is_digit c = (c \<in> set ''0123456789'')"

definition is_alnum :: "char \<Rightarrow> bool" where
  "is_alnum c =
     (c \<in> set ''abcdefghijklmnopqrstuvwxyzABCDEFGHIJKLMNOPQRSTUVWXYZ0123456789'')"

definition is_word :: "char \<Rightarrow> bool" where
  "is_word c = (is_alnum c \<or> c = CHR ''_'')"

definition is_space :: "char \<Rightarrow> bool" where
  "is_space c =
     (c \<in> set [CHR 0x09, CHR 0x0A, CHR 0x0B, CHR 0x0C, CHR 0x0D,
                CHR 0x1C, CHR 0x1D, CHR 0x1E, CHR 0x1F, CHR '' ''])"

datatype cls = Digit | Word | NonSpace

fun in_cls :: "cls \<Rightarrow> char \<Rightarrow> bool" where
  "in_cls Digit c = is_digit c"
| "in_cls Word c = is_word c"
| "in_cls NonSpace c = (\<not> is_space c)"

text \<open>
  The pattern is a sequence of literals and capturing groups \<^verbatim>\<open>(\d+)\<close>, \<^verbatim>\<open>(\w+)\<close>,
  \<^verbatim>\<open>(\S+)\<close>. \<^verbatim>\<open>re.match\<close> anchors the pattern at the start of the string only. A group
  is greedy: it first takes the longest run of its class and gives characters back one
  at a time while the rest of the pattern fails.
\<close>

datatype tok = Lit string | Grp cls

fun re_match :: "tok list \<Rightarrow> string \<Rightarrow> string list option"
  and re_group :: "cls \<Rightarrow> tok list \<Rightarrow> string \<Rightarrow> nat \<Rightarrow> string list option" where
  "re_match [] s = Some []"
| "re_match (Lit l # ts) s =
     (if take (length l) s = l then re_match ts (drop (length l) s) else None)"
| "re_match (Grp k # ts) s = re_group k ts s (length (takeWhile (in_cls k) s))"
| "re_group k ts s 0 = None"
| "re_group k ts s (Suc n) =
     (case re_match ts (drop (Suc n) s) of
        Some gs \<Rightarrow> Some (take (Suc n) s # gs)
      | None \<Rightarrow> re_group k ts s n)"

text \<open>\<^verbatim>\<open>r"candidate:(\d+) (\d+) (\w+) (\d+) (\S+) (\d+) typ (\w+)"\<close>\<close>

definition pattern :: "tok list" where
  "pattern = [Lit ''candidate:'', Grp Digit, Lit '' '', Grp Digit, Lit '' '', Grp Word,
     Lit '' '', Grp Digit, Lit '' '', Grp NonSpace, Lit '' '', Grp Digit, Lit '' typ '',
     Grp Word]"

text \<open>
  \<^verbatim>\<open>int(s)\<close> on a non-empty string of decimal digits, read in base ten. CPython refuses
  to convert a digit string longer than its limit, 4300 characters unless configured
  otherwise; the properties below are about lines within \<open>int_max_str_digits\<close>.
\<close>

definition int_max_str_digits :: nat where
  "int_max_str_digits = 4300"


definition digit_value :: "char \<Rightarrow> int" where
  "digit_value c = int (of_char c) - 48"

definition py_int :: "string \<Rightarrow> int" where
  "py_int s = foldl (\<lambda>a c. 10 * a + digit_value c) 0 s"

text \<open>The request body \<^verbatim>\<open>IceCandidate\<close> and the library's \<^verbatim>\<open>RTCIceCandidate\<close>.\<close>

record ice_candidate =
  candidate :: string
  sdpMLineIndex :: int
  sdpMid :: string
  usernameFragment :: string

record rtc_ice_candidate =
  component :: int
  foundation :: string
  ip :: string
  port :: int
  priority :: int
  protocol :: string
  type :: string
  rtc_sdpMid :: string
  rtc_sdpMLineIndex :: int

text \<open>
  The match and the construction of the \<^verbatim>\<open>RTCIceCandidate\<close> inside
  \<^verbatim>\<open>add_ice_candidate\<close>; \<open>None\<close> is the \<^verbatim>\<open>else\<close> branch that logs
  \<^verbatim>\<open>Failed to parse ICE candidate\<close>.
\<close>

definition parse_candidate :: "ice_candidate \<Rightarrow> rtc_ice_candidate option" where
  "parse_candidate cand =
     (case re_match pattern (candidate cand) of
        Some [g_foundation, g_component, g_protocol, g_priority, g_ip, g_port, g_typ] \<Rightarrow>
          Some \<lparr>component = py_int g_component, foundation = g_foundation, ip = g_ip,
                port = py_int g_port, priority = py_int g_priority, protocol = g_protocol,
                type = g_typ, rtc_sdpMid = sdpMid cand,
                rtc_sdpMLineIndex = sdpMLineIndex cand\<rparr>
      | _ \<Rightarrow> None)"

text \<open>
  For comparison, the grammar as the specification words it: the whole line is
  \<^verbatim>\<open>candidate:<foundation> <component> <protocol> <priority> <ip> <port> typ <type>\<close>,
  separated by single spaces, with decimal integers, alphanumeric tokens and a
  non-whitespace address.
\<close>

definition token :: "cls \<Rightarrow> string \<Rightarrow> bool" where
  "token k s = (s \<noteq> [] \<and> list_all (in_cls k) s)"

definition alnum_token :: "string \<Rightarrow> bool" where
  "alnum_token s = (s \<noteq> [] \<and> list_all is_alnum s)"

definition candidate_line ::
  "string \<Rightarrow> string \<Rightarrow> string \<Rightarrow> string \<Rightarrow> string \<Rightarrow> string \<Rightarrow> string \<Rightarrow> string" where
  "candidate_line f c p pr a po ty =
     ''candidate:'' @ f @ '' '' @ c @ '' '' @ p @ '' '' @ pr @ '' '' @ a @ '' '' @ po @
     '' typ '' @ ty"

fun split_spaces :: "string \<Rightarrow> string list" where
  "split_spaces [] = [[]]"
| "split_spaces (x # xs) =
     (if x = CHR '' '' then [] # split_spaces xs
      else (case split_spaces xs of
              [] \<Rightarrow> [[x]]
            | w # ws \<Rightarrow> (x # w) # ws))"

definition grammar_line :: "string \<Rightarrow> bool" where
  "grammar_line line =
     (case split_spaces line of
        [w, c, p, pr, a, po, t, ty] \<Rightarrow>
          take 10 w = ''candidate:'' \<and> token Digit (drop 10 w) \<and> token Digit c \<and>
          alnum_token p \<and> token Digit pr \<and> token NonSpace a \<and> token Digit po \<and>
          t = ''typ'' \<and> alnum_token ty
      | _ \<Rightarrow> False)"

text \<open>How a pattern reads with its groups filled in, and what each group may hold.\<close>

fun fill :: "tok list \<Rightarrow> string list \<Rightarrow> string" where
  "fill [] gs = []"
| "fill (Lit l # ts) gs = l @ fill ts gs"
| "fill (Grp k # ts) [] = []"
| "fill (Grp k # ts) (g # gs) = g @ fill ts gs"

fun conforms :: "tok list \<Rightarrow> string list \<Rightarrow> bool" where
  "conforms [] gs = (gs = [])"
| "conforms (Lit l # ts) gs = conforms ts gs"
| "conforms (Grp k # ts) [] = False"
| "conforms (Grp k # ts) (g # gs) = (token k g \<and> conforms ts gs)"

subsection \<open>Sessions, peer connections and the handlers\<close>

text \<open>
  Objects are identified by the number they got when they were constructed;
  \<open>next_object\<close> is the next unused number. A \<^verbatim>\<open>Session\<close> holds the handles of its
  renderer and of its peer connection.
\<close>

record session =
  session_id :: string
  renderer :: nat
  pc :: nat

text \<open>
  What \<^verbatim>\<open>create_offer\<close> attaches to one peer connection: the \<^verbatim>\<open>FrameProducer\<close> track
  (which holds its \<^verbatim>\<open>Session\<close>) and the \<^verbatim>\<open>connectionstatechange\<close> handler (a closure over
  \<^verbatim>\<open>session_id\<close>). \<open>closed\<close> is set by \<^verbatim>\<open>pc.close()\<close>.
\<close>

record peer =
  closed :: bool
  track :: session
  handler_session_id :: string

datatype json = JNum real | JStr string | JArr "json list"

record system =
  sessions :: "string \<rightharpoonup> session"
  peers :: "nat \<rightharpoonup> peer"
  ice_agent :: "nat \<Rightarrow> rtc_ice_candidate list"
  poses :: "nat \<rightharpoonup> json \<times> real list list"
  next_object :: nat

definition init_system :: system where
  "init_system = \<lparr>sessions = Map.empty, peers = Map.empty, ice_agent = (\<lambda>_. []),
     poses = Map.empty, next_object = 0\<rparr>"

text \<open>
  \<^verbatim>\<open>create_session\<close>: a new \<^verbatim>\<open>Renderer\<close>, a new \<^verbatim>\<open>Session\<close>, and
  \<^verbatim>\<open>sessions[session_id] = session\<close>, which replaces any entry already there.
\<close>

definition create_session :: "string \<Rightarrow> nat \<Rightarrow> system \<Rightarrow> session \<times> system" where
  "create_session sid pcid s =
     (let new = \<lparr>session_id = sid, renderer = next_object s, pc = pcid\<rparr>
      in (new, s\<lparr>sessions := (sessions s)(sid \<mapsto> new), next_object := next_object s + 1\<rparr>))"

record offer =
  sdp :: string
  offer_type :: string

text \<open>
  \<^verbatim>\<open>create_offer\<close>. The three awaited calls \<^verbatim>\<open>setRemoteDescription\<close>, \<^verbatim>\<open>createAnswer\<close>
  and \<^verbatim>\<open>setLocalDescription\<close> belong to the library: \<open>negotiate\<close> gives their joint
  outcome for the new peer connection, an exception or the local description. The
  constructors, \<^verbatim>\<open>get_ice_servers\<close> and \<^verbatim>\<open>pc.addTrack\<close> are taken to succeed. There is no test whether
  \<^verbatim>\<open>session_id\<close> is in the dictionary already.
\<close>

definition create_offer ::
  "(nat \<Rightarrow> offer \<Rightarrow> exc + offer) \<Rightarrow> offer \<Rightarrow> string \<Rightarrow> system \<Rightarrow> (exc + offer) \<times> system" where
  "create_offer negotiate off sid s =
     (let pcid = next_object s;
          (new, s1) = create_session sid pcid (s\<lparr>next_object := pcid + 1\<rparr>);
          s2 = s1\<lparr>peers := (peers s1)(pcid \<mapsto>
                 \<lparr>closed = False, track = new, handler_session_id = sid\<rparr>)\<rparr>
      in (negotiate pcid off, s2))"

text \<open>
  \<^verbatim>\<open>on_connectionstatechange\<close> of peer connection \<open>pcid\<close>, called when the library has
  set \<^verbatim>\<open>pc.connectionState\<close> to \<open>state\<close>. \<^verbatim>\<open>del sessions[session_id]\<close> raises
  \<^verbatim>\<open>KeyError\<close> when the key is absent. The handler is one step here: what other tasks
  do while it awaits \<^verbatim>\<open>pc.close()\<close>, and what \<^verbatim>\<open>pc.close()\<close> does to the track inside
  the library, is not part of the model.
\<close>

definition on_connectionstatechange :: "nat \<Rightarrow> string \<Rightarrow> system \<Rightarrow> (exc + unit) \<times> system" where
  "on_connectionstatechange pcid state s =
     (case peers s pcid of
        None \<Rightarrow> (Inr (), s)
      | Some p \<Rightarrow>
          if state = ''failed''
          then (let s1 = s\<lparr>peers := (peers s)(pcid \<mapsto> p\<lparr>closed := True\<rparr>)\<rparr>
                in case sessions s1 (handler_session_id p) of
                     None \<Rightarrow> (Inl (KeyError (handler_session_id p)), s1)
                   | Some _ \<Rightarrow>
                       (Inr (), s1\<lparr>sessions := (sessions s1)(handler_session_id p := None)\<rparr>))
          else (Inr (), s))"

text \<open>
  \<^verbatim>\<open>on_message\<close> on a data channel of peer connection \<open>pcid\<close>. The argument is what
  \<^verbatim>\<open>json.loads(message)\<close> gives: an exception or a dictionary.
  \<^verbatim>\<open>Rotation.from_euler("xyz", rotation, degrees=True).as_matrix()\<close> is the library's.
\<close>

definition on_message ::
  "(json \<Rightarrow> exc + real list list) \<Rightarrow> nat \<Rightarrow> exc + (string \<rightharpoonup> json) \<Rightarrow> system \<Rightarrow>
     (exc + unit) \<times> system" where
  "on_message from_euler pcid message s =
     (case peers s pcid of
        None \<Rightarrow> (Inr (), s)
      | Some p \<Rightarrow>
          (case message of
             Inl e \<Rightarrow> (Inl e, s)
           | Inr payload \<Rightarrow>
               (case payload ''type'' of
                  None \<Rightarrow> (Inl (KeyError ''type''), s)
                | Some t \<Rightarrow>
                    if t = JStr ''camera_update''
                    then (case payload ''position'' of
                            None \<Rightarrow> (Inl (KeyError ''position''), s)
                          | Some position \<Rightarrow>
                              (case payload ''rotation'' of
                                 None \<Rightarrow> (Inl (KeyError ''rotation''), s)
                               | Some rotation \<Rightarrow>
                                   (case from_euler rotation of
                                      Inl e \<Rightarrow> (Inl e, s)
                                    | Inr m \<Rightarrow>
                                        (Inr (), s\<lparr>poses := (poses s)
                                           (renderer (track p) \<mapsto> (position, m))\<rparr>))))
                    else (Inr (), s))))"

text \<open>
  \<^verbatim>\<open>add_ice_candidate\<close>. \<^verbatim>\<open>sessions[session_id]\<close> raises \<^verbatim>\<open>KeyError\<close> for an absent
  key, before the candidate is looked at. \<^verbatim>\<open>pc.addIceCandidate\<close> hands the candidate to
  the peer connection's ICE agent and is taken to succeed.
\<close>

definition add_ice_candidate :: "ice_candidate \<Rightarrow> string \<Rightarrow> system \<Rightarrow> (exc + unit) \<times> system" where
  "add_ice_candidate cand sid s =
     (case sessions s sid of
        None \<Rightarrow> (Inl (KeyError sid), s)
      | Some x \<Rightarrow>
          (case parse_candidate cand of
             Some rc \<Rightarrow>
               (Inr (), s\<lparr>ice_agent := (ice_agent s)(pc x := ice_agent s (pc x) @ [rc])\<rparr>)
           | None \<Rightarrow> (Inr (), s)))"

text \<open>The states the server can be in: any sequence of the four handlers.\<close>

inductive reachable :: "system \<Rightarrow> bool" where
  start: "reachable init_system"
| offer: "reachable s \<Longrightarrow> reachable (snd (create_offer negotiate off sid s))"
| ice: "reachable s \<Longrightarrow> reachable (snd (add_ice_candidate cand sid s))"
| message: "reachable s \<Longrightarrow> reachable (snd (on_message from_euler pcid m s))"
| statechange: "reachable s \<Longrightarrow> reachable (snd (on_connectionstatechange pcid state s))"

text \<open>
  What holds of every reachable state: a registered session sits under its own
  identifier and is the session of its peer connection's track; every peer connection's
  handles were allocated; no two peer connections' sessions share a renderer.
\<close>

definition well_formed :: "system \<Rightarrow> bool" where
  "well_formed s =
     ((\<forall>sid x. sessions s sid = Some x \<longrightarrow>
         session_id x = sid \<and> (\<exists>q. peers s (pc x) = Some q \<and> track q = x)) \<and>
      (\<forall>p q. peers s p = Some q \<longrightarrow>
         pc (track q) = p \<and> p < next_object s \<and> renderer (track q) < next_object s \<and>
         handler_session_id q = session_id (track q)) \<and>
      (\<forall>p p' q q'. peers s p = Some q \<longrightarrow> peers s p' = Some q' \<longrightarrow>
         renderer (track q) = renderer (track q') \<longrightarrow> p = p'))"

subsection \<open>Concrete renderers, codecs, requests and states\<close>

text \<open>A renderer that never has data; its state counts the calls of \<^verbatim>\<open>render()\<close>.\<close>

definition no_data :: "(nat, unit) pipeline" where
  "no_data = \<lparr>render = (\<lambda>n. (Inr None, Suc n)),
     container = \<lparr>cparse = (\<lambda>c d. (Inr [d], c)), cdecode = (\<lambda>c p. (Inr [], c))\<rparr>\<rparr>"

text \<open>A renderer whose every call raises.\<close>

definition broken_renderer :: "(nat, unit) pipeline" where
  "broken_renderer = \<lparr>render = (\<lambda>n. (Inl (LibraryError ''render''), Suc n)),
     container = \<lparr>cparse = (\<lambda>c d. (Inr [d], c)), cdecode = (\<lambda>c p. (Inr [], c))\<rparr>\<rparr>"

text \<open>
  The \<open>n\<close>-th call of \<^verbatim>\<open>render()\<close> returns the one byte \<open>n\<close>; the codec yields no frame
  for the first ten buffers and one frame for each later one.
\<close>

definition slow_start :: "(nat, unit) pipeline" where
  "slow_start = \<lparr>render = (\<lambda>n. (Inr (Some [n]), Suc n)),
     container = \<lparr>cparse = (\<lambda>c d. (Inr [d], c)),
       cdecode = (\<lambda>c p. (if hd p < 10 then Inr []
                             else Inr [\<lparr>image = p, pts = None, time_base = None\<rparr>], c))\<rparr>\<rparr>"

text \<open>
  A codec that makes one packet of every byte, raises on an empty buffer and on the
  packet 255, decodes the packet 0 to no frame and any other packet to two frames; its
  state counts the calls.
\<close>

definition byte_codec :: "nat codec" where
  "byte_codec = \<lparr>
     cparse = (\<lambda>c d. if d = [] then (Inl (LibraryError ''empty''), Suc c)
                      else (Inr (map (\<lambda>b. [b]) d), Suc c)),
     cdecode = (\<lambda>c p. if p = [0] then (Inr [], Suc c)
                       else if p = [255] then (Inl (LibraryError ''corrupt''), Suc c)
                       else (Inr [\<lparr>image = p, pts = None, time_base = None\<rparr>,
                                  \<lparr>image = p @ p, pts = None, time_base = None\<rparr>], Suc c))\<rparr>"

definition an_offer :: offer where
  "an_offer = \<lparr>sdp = ''v=0'', offer_type = ''offer''\<rparr>"

definition accept :: "nat \<Rightarrow> offer \<Rightarrow> exc + offer" where
  "accept pcid off = Inr \<lparr>sdp = ''v=0'', offer_type = ''answer''\<rparr>"

definition refuse :: "nat \<Rightarrow> offer \<Rightarrow> exc + offer" where
  "refuse pcid off = Inl (LibraryError ''sdp'')"

definition one_session :: system where
  "one_session = snd (create_offer accept an_offer ''a'' init_system)"



definition host_candidate :: ice_candidate where
  "host_candidate = \<lparr>candidate = ''candidate:1 1 udp 2122260223 192.168.1.5 54321 typ host'',
     sdpMLineIndex = 0, sdpMid = ''0'', usernameFragment = ''abcd''\<rparr>"

definition srflx_candidate :: ice_candidate where
  "srflx_candidate = \<lparr>candidate =
       ''candidate:842163049 1 udp 1677729535 203.0.113.7 46154 typ srflx raddr 0.0.0.0 rport 0'',
     sdpMLineIndex = 0, sdpMid = ''0'', usernameFragment = ''abcd''\<rparr>"

definition end_of_candidates :: ice_candidate where
  "end_of_candidates = \<lparr>candidate = [], sdpMLineIndex = 0, sdpMid = ''0'',
     usernameFragment = ''abcd''\<rparr>"

section \<open>Properties\<close>

subsection \<open>parse\_frame\<close>

lemma decode_packets_first:
  "(case decode_packets K c ps of (Inl e, c') \<Rightarrow> None | (Inr r, c') \<Rightarrow> r)
     = first_frame (decode_all K c ps)"
proof (induction ps arbitrary: c)
  case Nil
  show ?case by (simp add: first_frame_def)
next
  case (Cons p ps)
  obtain res c' where d: "cdecode K c p = (res, c')" by (cases "cdecode K c p")
  show ?case
  proof (cases res)
    case (Inl e)
    with d show ?thesis by (simp add: first_frame_def)
  next
    case (Inr fs)
    show ?thesis
    proof (cases fs)
      case Nil
      with d Inr Cons.IH[of c'] show ?thesis by simp
    next
      case (Cons f fs')
      with d Inr show ?thesis by (simp add: first_frame_def)
    qed
  qed
qed

lemma parse_frame_result:
  "p_result (parse_frame K c data) =
     (case cparse K c data of
        (Inl e, c') \<Rightarrow> None
      | (Inr packets, c') \<Rightarrow> first_frame (decode_all K c' packets))"
proof -
  obtain res c' where p: "cparse K c data = (res, c')" by (cases "cparse K c data")
  show ?thesis
  proof (cases res)
    case (Inl e)
    with p show ?thesis by (simp add: parse_frame_def parse_frame_try_def)
  next
    case (Inr packets)
    obtain r2 c2 where d: "decode_packets K c' packets = (r2, c2)"
      by (cases "decode_packets K c' packets")
    from decode_packets_first[of K c' packets] d
    have "(case r2 of Inl e \<Rightarrow> None | Inr r \<Rightarrow> r) = first_frame (decode_all K c' packets)"
      by simp
    with p Inr d show ?thesis
      by (cases r2) (simp_all add: parse_frame_def parse_frame_try_def)
  qed
qed

lemma parse_frame_caught:
  "parse_frame_try K c data = (Inl e, c') \<Longrightarrow>
     parse_frame K c data = \<lparr>p_result = None, p_context = c', logged = [e]\<rparr>"
  by (simp add: parse_frame_def)

lemma parse_frame_returned:
  "parse_frame_try K c data = (Inr r, c') \<Longrightarrow>
     parse_frame K c data = \<lparr>p_result = r, p_context = c', logged = []\<rparr>"
  by (simp add: parse_frame_def)

text \<open>
  Claim C10. For every codec, every state of the codec context and every input buffer,
  \<^verbatim>\<open>parse_frame\<close> returns the first of the frames that decoding the packets of the
  input in order yields (later frames are dropped), or \<open>None\<close>. An exception raised by
  \<^verbatim>\<open>container.parse\<close> or \<^verbatim>\<open>container.decode\<close> is caught and logged, and the result
  is \<open>None\<close>; nothing is raised to the caller.
\<close>

theorem parse_frame_first_frame_or_none:
  "p_result (parse_frame K c data) =
     (case cparse K c data of
        (Inl e, c') \<Rightarrow> None
      | (Inr packets, c') \<Rightarrow> first_frame (decode_all K c' packets)) \<and>
   (\<forall>e c'. parse_frame_try K c data = (Inl e, c') \<longrightarrow>
      parse_frame K c data = \<lparr>p_result = None, p_context = c', logged = [e]\<rparr>) \<and>
   (\<forall>r c'. parse_frame_try K c data = (Inr r, c') \<longrightarrow>
      parse_frame K c data = \<lparr>p_result = r, p_context = c', logged = []\<rparr>)"
  using parse_frame_result[of K c data] parse_frame_caught[of K c data]
    parse_frame_returned[of K c data]
  by blast

text \<open>
  With the byte codec: the buffer \<open>[0, 7, 255]\<close> gives the first frame of packet 7, and
  packet 255 is never decoded; in \<open>[0, 255, 7]\<close> the error of packet 255 comes first and
  is logged.
\<close>

theorem parse_frame_first_frame_or_none_witness:
  "p_result (parse_frame byte_codec (0::nat) [0, 7, 255]) =
     Some \<lparr>image = [7], pts = None, time_base = None\<rparr> \<and>
   decode_all byte_codec (1::nat) [[0], [7], [255]] =
     [\<lparr>image = [7], pts = None, time_base = None\<rparr>,
      \<lparr>image = [7, 7], pts = None, time_base = None\<rparr>] \<and>
   parse_frame_try byte_codec (0::nat) [0, 255, 7] = (Inl (LibraryError ''corrupt''), 3) \<and>
   parse_frame byte_codec (0::nat) [0, 255, 7] =
     \<lparr>p_result = None, p_context = 3, logged = [LibraryError ''corrupt'']\<rparr>"
proof -
  have p: "cparse byte_codec (0::nat) [0, 7, 255] = (Inr [[0], [7], [255]], 1)"
    by (simp add: byte_codec_def)
  have d: "decode_all byte_codec (1::nat) [[0], [7], [255]] =
     [\<lparr>image = [7], pts = None, time_base = None\<rparr>,
      \<lparr>image = [7, 7], pts = None, time_base = None\<rparr>]"
    by (simp add: byte_codec_def)
  have t: "parse_frame_try byte_codec (0::nat) [0, 255, 7] = (Inl (LibraryError ''corrupt''), 3)"
    by code_simp
  from parse_frame_first_frame_or_none[of byte_codec 0 "[0, 7, 255]"] p d
  have 1: "p_result (parse_frame byte_codec (0::nat) [0, 7, 255]) =
     Some \<lparr>image = [7], pts = None, time_base = None\<rparr>"
    by (simp add: first_frame_def)
  from parse_frame_first_frame_or_none[of byte_codec 0 "[0, 255, 7]"] t
  have 2: "parse_frame byte_codec (0::nat) [0, 255, 7] =
     \<lparr>p_result = None, p_context = 3, logged = [LibraryError ''corrupt'']\<rparr>"
    by blast
  from 1 d t 2 show ?thesis by blast
qed

subsection \<open>The retry loop of recv\<close>

lemma recv_loop_runs_on:
  fixes P :: "('r, 'c) pipeline"
  assumes inv: "I n fv r c"
    and step: "\<And>n fv r c. I n fv r c \<Longrightarrow>
       \<exists>n' fv' r' c'. attempt P n fv r c = Continue n' fv' r' c' \<and> I n' fv' r' c'"
  shows "recv_loop P n fv r c = None"
proof (rule ccontr)
  assume "recv_loop P n fv r c \<noteq> None"
  then obtain y where y: "recv_loop P n fv r c = Some y" by auto
  define Q :: "(((('r, 'c) pipeline \<times> nat) \<times> frame option local_var) \<times> 'r) \<times> 'c \<Rightarrow>
      (frame option local_var \<times> 'r \<times> 'c) \<Rightarrow> bool"
    where "Q = (\<lambda>x y. case x of ((((P', n), fv), r), c) \<Rightarrow> P' = P \<longrightarrow> \<not> I n fv r c)"
  have "Q ((((P, n), fv), r), c) y"
  proof (rule recv_loop.raw_induct[where Pa = Q, OF _ y])
    fix loop :: "('r, 'c) pipeline \<Rightarrow> nat \<Rightarrow> frame option local_var \<Rightarrow> 'r \<Rightarrow> 'c \<Rightarrow>
        (frame option local_var \<times> 'r \<times> 'c) option"
      and P' :: "('r, 'c) pipeline" and n fv r c y
    assume IH: "\<And>P' n fv r c y. loop P' n fv r c = Some y \<Longrightarrow> Q ((((P', n), fv), r), c) y"
      and body: "(case attempt P' n fv r c of
          Break fv' r' c' \<Rightarrow> Some (fv', r', c')
        | Continue n' fv' r' c' \<Rightarrow> loop P' n' fv' r' c') = Some y"
    show "Q ((((P', n), fv), r), c) y"
      unfolding Q_def
    proof (clarify)
      assume i: "I n fv r c" and P': "P' = P"
      from step[OF i] obtain n' fv' r' c' where
        a: "attempt P n fv r c = Continue n' fv' r' c'" and i': "I n' fv' r' c'" by blast
      from body a P' have "loop P n' fv' r' c' = Some y" by simp
      from IH[OF this] i' show False by (simp add: Q_def)
    qed
  qed
  with inv show False by (simp add: Q_def)
qed

lemma recv_no_data_general:
  assumes "\<And>r. fst (render P r) = Inr None \<or> fst (render P r) = Inr (Some [])"
  shows "recv P (Inr ts) r c = None"
proof -
  have "recv_loop P 0 Unbound r c = None"
  proof (rule recv_loop_runs_on[where I = "\<lambda>n fv r c. True"])
    fix n fv r c
    obtain res r' where rr: "render P r = (res, r')" by (cases "render P r")
    with assms[of r] have "res = Inr None \<or> res = Inr (Some [])" by simp
    with rr show "\<exists>n' fv' r' c'. attempt P n fv r c = Continue n' fv' r' c' \<and> True"
      by (auto simp: attempt_def)
  qed simp
  then show ?thesis by (cases ts) (simp add: recv_def)
qed

lemma recv_loop_attempts:
  "recv_loop P n fv r c =
     (case attempts P j n fv r c of
        Break fv' r' c' \<Rightarrow> Some (fv', r', c')
      | Continue n' fv' r' c' \<Rightarrow> recv_loop P n' fv' r' c')"
proof (induction j arbitrary: n fv r c)
  case 0
  show ?case by simp
next
  case (Suc j)
  show ?case
  proof (cases "attempt P n fv r c")
    case (Break fv' r' c')
    then show ?thesis by (subst recv_loop.simps) simp
  next
    case (Continue n' fv' r' c')
    then show ?thesis using Suc[of n' fv' r' c'] by (subst recv_loop.simps) simp
  qed
qed

lemma attempt_counts:
  assumes "fst (render P r) \<noteq> Inr None" and "fst (render P r) \<noteq> Inr (Some [])"
    and "attempt P n fv r c = Continue n' fv' r' c'"
  shows "n' = n + 1 \<and> n' < max_failed_attempts"
proof -
  obtain res r1 where rr: "render P r = (res, r1)" by (cases "render P r")
  have oe: "\<And>v a b. on_exception n v a b = Continue n' fv' r' c' \<Longrightarrow>
      n' = n + 1 \<and> n' < max_failed_attempts"
    by (auto simp: on_exception_def split: if_splits)
  show ?thesis
  proof (cases res)
    case (Inl e)
    with rr assms(3) show ?thesis by (auto simp: attempt_def dest: oe)
  next
    case (Inr d)
    with rr assms(1,2) obtain data where d: "d = Some data" "data \<noteq> []"
      by (cases d) auto
    with rr Inr assms(3) show ?thesis
      by (auto simp: attempt_def split: option.splits dest: oe)
  qed
qed

lemma attempts_bounded:
  assumes nd: "\<And>r. fst (render P r) \<noteq> Inr None \<and> fst (render P r) \<noteq> Inr (Some [])"
  shows "n + k = max_failed_attempts \<Longrightarrow> 0 < k \<Longrightarrow>
    \<exists>fv' r' c'. attempts P k n fv r c = Break fv' r' c'"
proof (induction k arbitrary: n fv r c)
  case 0
  then show ?case by simp
next
  case (Suc k)
  show ?case
  proof (cases "attempt P n fv r c")
    case (Break fv' r' c')
    then show ?thesis by simp
  next
    case (Continue n' fv' r' c')
    from attempt_counts[OF _ _ Continue] nd
    have n': "n' = n + 1" "n' < max_failed_attempts" by auto
    with Suc.prems have "n' + k = max_failed_attempts" "0 < k" by auto
    from Suc.IH[OF this] Continue show ?thesis by simp
  qed
qed

lemma recv_returns:
  assumes "\<And>r. fst (render P r) \<noteq> Inr None \<and> fst (render P r) \<noteq> Inr (Some [])"
  shows "\<exists>y. recv P ts r c = Some y"
proof (cases ts)
  case (Inl e)
  then show ?thesis by (simp add: recv_def)
next
  case (Inr tt)
  obtain t tb where tt: "tt = (t, tb)" by (cases tt)
  from attempts_bounded[OF assms, of 0 max_failed_attempts Unbound r c]
  obtain fv' r' c' where "attempts P max_failed_attempts 0 Unbound r c = Break fv' r' c'"
    by (auto simp: max_failed_attempts_def)
  with recv_loop_attempts[of P 0 Unbound r c max_failed_attempts]
  have "recv_loop P 0 Unbound r c = Some (fv', r', c')" by simp
  with Inr tt show ?thesis
    by (cases fv') (auto simp: recv_def split: option.splits)
qed

text \<open>
  Claim C1. Within one pull, \<^verbatim>\<open>recv\<close> calls \<^verbatim>\<open>render()\<close> at most
  \<open>max_failed_attempts = 10\<close> times before giving up, whatever the renderer and the codec
  do, because every failure, a render that returns no data included, adds one to the
  counter. In the code a render that returns no data adds nothing: with a renderer that
  never has data the loop is still running after 11 calls of \<^verbatim>\<open>render()\<close>, with the
  counter at 0, and \<^verbatim>\<open>recv\<close> never returns.
\<close>

theorem recv_no_data_never_gives_up:
  "attempts no_data 11 0 Unbound (0::nat) () = Continue 0 Unbound 11 () \<and>
   recv no_data (Inr (0, (1, 90000))) (0::nat) () = None"
proof
  show "attempts no_data 11 0 Unbound (0::nat) () = Continue 0 Unbound 11 ()"
    by code_simp
  show "recv no_data (Inr (0, (1, 90000))) (0::nat) () = None"
    by (rule recv_no_data_general) (simp add: no_data_def)
qed

text \<open>
  Claim C3. When the counter reaches \<open>max_failed_attempts\<close>, the pull stops and returns
  an outcome that says no frame is available, without raising; the session stays, and
  the next pull has a fresh budget and can succeed. In the code the loop stops and the
  statement after it, \<^verbatim>\<open>frame.pts = pts\<close>, raises: \<^verbatim>\<open>AttributeError\<close> after ten buffers
  that gave no frame, \<^verbatim>\<open>UnboundLocalError\<close> after ten calls of \<^verbatim>\<open>render()\<close> that raised.
  The next pull does start at 0 and returns a frame once the codec yields one.
\<close>

theorem recv_exhausted_raises:
  "recv slow_start (Inr (3000, (1, 90000))) (0::nat) () =
     Some (Inl (AttributeError ''pts''), 10, ()) \<and>
   recv broken_renderer (Inr (3000, (1, 90000))) (0::nat) () =
     Some (Inl (UnboundLocalError ''frame''), 10, ()) \<and>
   recv slow_start (Inr (6000, (1, 90000))) (10::nat) () =
     Some (Inr \<lparr>image = [10], pts = Some 6000, time_base = Some (1, 90000)\<rparr>, 11, ())"
  by code_simp

subsection \<open>The ICE candidate pattern\<close>

lemma re_match_Lit: "re_match (Lit l # ts) (l @ rest) = re_match ts rest"
  by simp

lemma takeWhile_run:
  assumes "list_all P g" and "rest = [] \<or> \<not> P (hd rest)"
  shows "takeWhile P (g @ rest) = g"
proof -
  have "takeWhile P rest = []" using assms(2) by (cases rest) auto
  moreover have "\<forall>x\<in>set g. P x" using assms(1) by (simp add: list_all_iff)
  ultimately show ?thesis by simp
qed

lemma re_match_Grp:
  assumes "token k g"
    and "rest = [] \<or> \<not> in_cls k (hd rest)"
    and "re_match ts rest = Some gs"
  shows "re_match (Grp k # ts) (g @ rest) = Some (g # gs)"
proof -
  from assms(1) have ne: "g \<noteq> []" and cl: "list_all (in_cls k) g"
    by (simp_all add: token_def)
  obtain n where n: "length g = Suc n" using ne by (cases g) auto
  have "re_match (Grp k # ts) (g @ rest) = re_group k ts (g @ rest) (Suc n)"
    using takeWhile_run[OF cl assms(2)] n by simp
  also have "\<dots> = Some (g # gs)"
  proof -
    have "drop (Suc n) (g @ rest) = rest" "take (Suc n) (g @ rest) = g"
      using n by simp_all
    then show ?thesis using assms(3) by simp
  qed
  finally show ?thesis .
qed

lemma re_sound:
  "(re_match ts s = Some gs \<longrightarrow> conforms ts gs \<and> (\<exists>rest. s = fill ts gs @ rest))"
  "(re_group k ts s n = Some gs' \<longrightarrow> n \<le> length (takeWhile (in_cls k) s) \<longrightarrow>
      conforms (Grp k # ts) gs' \<and> (\<exists>rest. s = fill (Grp k # ts) gs' @ rest))"
proof (induction ts s and k ts s n arbitrary: gs and gs' rule: re_match_re_group.induct)
  case (1 s)
  then show ?case by simp
next
  case (2 l ts s)
  show ?case
  proof (intro impI)
    assume a: "re_match (Lit l # ts) s = Some gs"
    then have l: "take (length l) s = l" and m: "re_match ts (drop (length l) s) = Some gs"
      by (auto split: if_splits)
    from 2[OF l] m obtain rest where "conforms ts gs" "drop (length l) s = fill ts gs @ rest"
      by blast
    moreover have "s = l @ drop (length l) s" using l by (metis append_take_drop_id)
    ultimately show "conforms (Lit l # ts) gs \<and> (\<exists>rest. s = fill (Lit l # ts) gs @ rest)"
      by auto
  qed
next
  case (3 k ts s)
  then show ?case by simp
next
  case (4 k ts s)
  then show ?case by simp
next
  case (5 k ts s n)
  show ?case
  proof (intro impI)
    assume a: "re_group k ts s (Suc n) = Some gs'"
      and b: "Suc n \<le> length (takeWhile (in_cls k) s)"
    show "conforms (Grp k # ts) gs' \<and> (\<exists>rest. s = fill (Grp k # ts) gs' @ rest)"
    proof (cases "re_match ts (drop (Suc n) s)")
      case None
      with a have "re_group k ts s n = Some gs'" by simp
      with 5(2)[OF None] b show ?thesis by simp
    next
      case (Some gs)
      with a have g: "gs' = take (Suc n) s # gs" by simp
      from 5(1) Some obtain rest where c: "conforms ts gs" and r: "drop (Suc n) s = fill ts gs @ rest"
        by blast
      have "take (Suc n) s = take (Suc n) (takeWhile (in_cls k) s)"
        using b by (metis takeWhile_dropWhile_id take_append diff_is_0_eq take_0 append_Nil2)
      then have "set (take (Suc n) s) \<subseteq> set (takeWhile (in_cls k) s)"
        by (metis set_take_subset)
      then have cl: "list_all (in_cls k) (take (Suc n) s)"
        by (auto simp: list_all_iff dest: set_takeWhileD)
      have ne: "take (Suc n) s \<noteq> []" using b by (cases s) auto
      have "s = take (Suc n) s @ drop (Suc n) s" by simp
      then have "s = take (Suc n) s @ fill ts gs @ rest" using r by metis
      with c cl ne g show ?thesis by (auto simp: token_def)
    qed
  qed
qed

lemma fill_pattern: "fill pattern [f, c, p, pr, a, po, ty] = candidate_line f c p pr a po ty"
  by (simp add: pattern_def candidate_line_def)

lemma space_classes:
  "\<not> is_digit CHR '' ''" "\<not> is_word CHR '' ''" "is_space CHR '' ''"
  by (simp_all add: is_digit_def is_word_def is_alnum_def is_space_def)

lemma re_match_Grp_sp:
  assumes "token k g" and "re_match ts (CHR '' '' # rest) = Some gs"
  shows "re_match (Grp k # ts) (g @ CHR '' '' # rest) = Some (g # gs)"
  using assms(1) _ assms(2)
proof (rule re_match_Grp)
  show "CHR '' '' # rest = [] \<or> \<not> in_cls k (hd (CHR '' '' # rest))"
    by (cases k) (simp_all add: space_classes)
qed

lemma re_match_pattern:
  assumes "token Digit f" "token Digit c" "token Word p" "token Digit pr" "token NonSpace a"
    "token Digit po" "token Word ty" and rest: "rest = [] \<or> \<not> is_word (hd rest)"
  shows "re_match pattern (candidate_line f c p pr a po ty @ rest) = Some [f, c, p, pr, a, po, ty]"
proof -
  have 7: "re_match [Grp Word] (ty @ rest) = Some [ty]"
    by (rule re_match_Grp) (use assms in simp_all)
  have 6: "re_match [Lit '' typ '', Grp Word] (CHR '' '' # ''typ '' @ ty @ rest) = Some [ty]"
    using 7 by simp
  have 5: "re_match [Grp Digit, Lit '' typ '', Grp Word] (po @ CHR '' '' # ''typ '' @ ty @ rest)
      = Some [po, ty]"
    by (rule re_match_Grp_sp) (use assms 6 in simp_all)
  have 4: "re_match [Grp NonSpace, Lit '' '', Grp Digit, Lit '' typ '', Grp Word]
      (a @ CHR '' '' # po @ CHR '' '' # ''typ '' @ ty @ rest) = Some [a, po, ty]"
    by (rule re_match_Grp_sp) (use assms 5 in simp_all)
  have 3: "re_match [Grp Digit, Lit '' '', Grp NonSpace, Lit '' '', Grp Digit, Lit '' typ '', Grp Word]
      (pr @ CHR '' '' # a @ CHR '' '' # po @ CHR '' '' # ''typ '' @ ty @ rest) = Some [pr, a, po, ty]"
    by (rule re_match_Grp_sp) (use assms 4 in simp_all)
  have 2: "re_match [Grp Word, Lit '' '', Grp Digit, Lit '' '', Grp NonSpace, Lit '' '', Grp Digit,
        Lit '' typ '', Grp Word]
      (p @ CHR '' '' # pr @ CHR '' '' # a @ CHR '' '' # po @ CHR '' '' # ''typ '' @ ty @ rest)
      = Some [p, pr, a, po, ty]"
    by (rule re_match_Grp_sp) (use assms 3 in simp_all)
  have 1: "re_match [Grp Digit, Lit '' '', Grp Word, Lit '' '', Grp Digit, Lit '' '', Grp NonSpace,
        Lit '' '', Grp Digit, Lit '' typ '', Grp Word]
      (c @ CHR '' '' # p @ CHR '' '' # pr @ CHR '' '' # a @ CHR '' '' # po @ CHR '' '' # ''typ '' @ ty @ rest)
      = Some [c, p, pr, a, po, ty]"
    by (rule re_match_Grp_sp) (use assms 2 in simp_all)
  have 0: "re_match [Grp Digit, Lit '' '', Grp Digit, Lit '' '', Grp Word, Lit '' '', Grp Digit,
        Lit '' '', Grp NonSpace, Lit '' '', Grp Digit, Lit '' typ '', Grp Word]
      (f @ CHR '' '' # c @ CHR '' '' # p @ CHR '' '' # pr @ CHR '' '' # a @ CHR '' '' # po @ CHR '' '' # ''typ '' @ ty @ rest)
      = Some [f, c, p, pr, a, po, ty]"
    by (rule re_match_Grp_sp) (use assms 1 in simp_all)
  show ?thesis
    using 0 by (simp add: pattern_def candidate_line_def)
qed

lemma conforms_pattern:
  assumes "conforms pattern gs"
  obtains f c p pr a po ty where "gs = [f, c, p, pr, a, po, ty]"
    "token Digit f" "token Digit c" "token Word p" "token Digit pr" "token NonSpace a"
    "token Digit po" "token Word ty"
proof -
  from assms obtain f g1 where 1: "gs = f # g1" "token Digit f"
    "conforms [Grp Digit, Lit '' '', Grp Word, Lit '' '', Grp Digit, Lit '' '', Grp NonSpace,
        Lit '' '', Grp Digit, Lit '' typ '', Grp Word] g1"
    by (cases gs) (auto simp: pattern_def)
  from 1(3) obtain c g2 where 2: "g1 = c # g2" "token Digit c"
    "conforms [Grp Word, Lit '' '', Grp Digit, Lit '' '', Grp NonSpace,
        Lit '' '', Grp Digit, Lit '' typ '', Grp Word] g2"
    by (cases g1) auto
  from 2(3) obtain p g3 where 3: "g2 = p # g3" "token Word p"
    "conforms [Grp Digit, Lit '' '', Grp NonSpace, Lit '' '', Grp Digit, Lit '' typ '', Grp Word] g3"
    by (cases g2) auto
  from 3(3) obtain pr g4 where 4: "g3 = pr # g4" "token Digit pr"
    "conforms [Grp NonSpace, Lit '' '', Grp Digit, Lit '' typ '', Grp Word] g4"
    by (cases g3) auto
  from 4(3) obtain a g5 where 5: "g4 = a # g5" "token NonSpace a"
    "conforms [Grp Digit, Lit '' typ '', Grp Word] g5"
    by (cases g4) auto
  from 5(3) obtain po g6 where 6: "g5 = po # g6" "token Digit po" "conforms [Grp Word] g6"
    by (cases g5) auto
  from 6(3) obtain ty where 7: "g6 = [ty]" "token Word ty"
    by (cases g6) auto
  show thesis
    using that[of f c p pr a po ty] 1 2 3 4 5 6 7 by simp
qed

text \<open>A match, read back: the line starts with a filled-in pattern.\<close>

lemma re_match_pattern_sound:
  assumes "re_match pattern s = Some gs"
  obtains f c p pr a po ty rest where "gs = [f, c, p, pr, a, po, ty]"
    "s = candidate_line f c p pr a po ty @ rest"
    "token Digit f" "token Digit c" "token Word p" "token Digit pr" "token NonSpace a"
    "token Digit po" "token Word ty"
proof -
  from re_sound(1)[of pattern s gs] assms obtain rest where
    c: "conforms pattern gs" and s: "s = fill pattern gs @ rest" by blast
  from c obtain f c p pr a po ty where g: "gs = [f, c, p, pr, a, po, ty]"
    and t: "token Digit f" "token Digit c" "token Word p" "token Digit pr" "token NonSpace a"
    "token Digit po" "token Word ty"
    by (rule conforms_pattern)
  from s g have "s = candidate_line f c p pr a po ty @ rest"
    by (simp only: fill_pattern)
  with g t show thesis using that by blast
qed

text \<open>The last group takes every word character that follows the type.\<close>

lemma re_match_pattern_prefix:
  assumes "token Digit f" "token Digit c" "token Word p" "token Digit pr" "token NonSpace a"
    "token Digit po" "token Word ty"
  shows "re_match pattern (candidate_line f c p pr a po ty @ rest)
    = Some [f, c, p, pr, a, po, ty @ takeWhile is_word rest]"
proof -
  let ?ty = "ty @ takeWhile is_word rest" and ?rest = "dropWhile is_word rest"
  have ty: "token Word ?ty"
    using assms(7) by (auto simp: token_def list_all_iff dest: set_takeWhileD)
  have rest: "?rest = [] \<or> \<not> is_word (hd ?rest)"
    using hd_dropWhile[of is_word rest] by blast
  have "candidate_line f c p pr a po ty @ rest = candidate_line f c p pr a po ?ty @ ?rest"
    by (simp add: candidate_line_def)
  then show ?thesis
    using re_match_pattern[OF assms(1-6) ty rest] by simp
qed

lemma parse_candidate_Some:
  assumes "candidate cand = candidate_line f c p pr a po ty @ rest"
    and "token Digit f" "token Digit c" "token Word p" "token Digit pr" "token NonSpace a"
    "token Digit po" "token Word ty"
  shows "parse_candidate cand =
    Some \<lparr>component = py_int c, foundation = f, ip = a, port = py_int po,
      priority = py_int pr, protocol = p, type = ty @ takeWhile is_word rest,
      rtc_sdpMid = sdpMid cand, rtc_sdpMLineIndex = sdpMLineIndex cand\<rparr>"
  using re_match_pattern_prefix[OF assms(2-8), of rest] assms(1)
  by (simp add: parse_candidate_def)

lemma parse_candidate_None_iff:
  "parse_candidate cand = None \<longleftrightarrow>
     \<not> (\<exists>f c p pr a po ty rest. candidate cand = candidate_line f c p pr a po ty @ rest \<and>
          token Digit f \<and> token Digit c \<and> token Word p \<and> token Digit pr \<and>
          token NonSpace a \<and> token Digit po \<and> token Word ty)"
proof
  assume n: "parse_candidate cand = None"
  show "\<not> (\<exists>f c p pr a po ty rest. candidate cand = candidate_line f c p pr a po ty @ rest \<and>
          token Digit f \<and> token Digit c \<and> token Word p \<and> token Digit pr \<and>
          token NonSpace a \<and> token Digit po \<and> token Word ty)"
  proof
    assume "\<exists>f c p pr a po ty rest. candidate cand = candidate_line f c p pr a po ty @ rest \<and>
          token Digit f \<and> token Digit c \<and> token Word p \<and> token Digit pr \<and>
          token NonSpace a \<and> token Digit po \<and> token Word ty"
    then obtain f c p pr a po ty rest where
      "candidate cand = candidate_line f c p pr a po ty @ rest"
      "token Digit f" "token Digit c" "token Word p" "token Digit pr" "token NonSpace a"
      "token Digit po" "token Word ty" by blast
    from parse_candidate_Some[OF this] n show False by simp
  qed
next
  assume ne: "\<not> (\<exists>f c p pr a po ty rest. candidate cand = candidate_line f c p pr a po ty @ rest \<and>
          token Digit f \<and> token Digit c \<and> token Word p \<and> token Digit pr \<and>
          token NonSpace a \<and> token Digit po \<and> token Word ty)"
  show "parse_candidate cand = None"
  proof (cases "re_match pattern (candidate cand)")
    case None
    then show ?thesis by (simp add: parse_candidate_def)
  next
    case (Some gs)
    then obtain f c p pr a po ty rest where "gs = [f, c, p, pr, a, po, ty]"
      "candidate cand = candidate_line f c p pr a po ty @ rest"
      "token Digit f" "token Digit c" "token Word p" "token Digit pr" "token NonSpace a"
      "token Digit po" "token Word ty"
      by (rule re_match_pattern_sound)
    with ne show ?thesis by blast
  qed
qed

subsection \<open>The session dictionary\<close>

lemma create_offer_effect:
  "fst (create_offer negotiate off sid s) = negotiate (next_object s) off"
  "sessions (snd (create_offer negotiate off sid s)) =
     (sessions s)(sid \<mapsto> \<lparr>session_id = sid, renderer = next_object s + 1, pc = next_object s\<rparr>)"
  "peers (snd (create_offer negotiate off sid s)) =
     (peers s)(next_object s \<mapsto> \<lparr>closed = False,
        track = \<lparr>session_id = sid, renderer = next_object s + 1, pc = next_object s\<rparr>,
        handler_session_id = sid\<rparr>)"
  "next_object (snd (create_offer negotiate off sid s)) = next_object s + 2"
  "ice_agent (snd (create_offer negotiate off sid s)) = ice_agent s"
  "poses (snd (create_offer negotiate off sid s)) = poses s"
  by (simp_all add: create_offer_def create_session_def Let_def)

lemma add_ice_candidate_frame:
  "sessions (snd (add_ice_candidate cand sid s)) = sessions s"
  "peers (snd (add_ice_candidate cand sid s)) = peers s"
  "next_object (snd (add_ice_candidate cand sid s)) = next_object s"
  "poses (snd (add_ice_candidate cand sid s)) = poses s"
  by (simp_all add: add_ice_candidate_def split: option.splits)

lemma on_message_frame:
  "sessions (snd (on_message from_euler pcid m s)) = sessions s"
  "peers (snd (on_message from_euler pcid m s)) = peers s"
  "next_object (snd (on_message from_euler pcid m s)) = next_object s"
  "ice_agent (snd (on_message from_euler pcid m s)) = ice_agent s"
  by (simp_all add: on_message_def split: option.splits sum.splits)

lemma on_connectionstatechange_effect:
  "next_object (snd (on_connectionstatechange pcid state s)) = next_object s"
  "sessions (snd (on_connectionstatechange pcid state s)) =
     (case peers s pcid of
        None \<Rightarrow> sessions s
      | Some p \<Rightarrow> if state = ''failed'' then (sessions s)(handler_session_id p := None)
                  else sessions s)"
  "peers (snd (on_connectionstatechange pcid state s)) =
     (case peers s pcid of
        None \<Rightarrow> peers s
      | Some p \<Rightarrow> if state = ''failed'' then (peers s)(pcid \<mapsto> p\<lparr>closed := True\<rparr>)
                  else peers s)"
  by (auto simp: on_connectionstatechange_def Let_def split: option.splits)

text \<open>
  When the state of a peer connection changes to \<open>failed\<close>, its handler marks the
  connection closed and the dictionary has no entry under the handler's identifier
  afterwards; the handler raises \<^verbatim>\<open>KeyError\<close> exactly when there was none before.
\<close>

lemma on_connectionstatechange_failed:
  assumes "peers s p = Some q"
  shows "peers (snd (on_connectionstatechange p ''failed'' s)) p = Some (q\<lparr>closed := True\<rparr>)"
    and "sessions (snd (on_connectionstatechange p ''failed'' s)) (handler_session_id q) = None"
    and "fst (on_connectionstatechange p ''failed'' s) =
      (if sessions s (handler_session_id q) = None then Inl (KeyError (handler_session_id q))
       else Inr ())"
  using assms
  by (auto simp: on_connectionstatechange_def Let_def split: option.splits)

text \<open>
  A \<^verbatim>\<open>camera_update\<close> message hands the position and the matrix of the rotation to the
  renderer of the track's session in one call of \<^verbatim>\<open>update\<close>.
\<close>

lemma on_message_camera_update:
  assumes "peers s p = Some q"
    and "payload ''type'' = Some (JStr ''camera_update'')"
    and "payload ''position'' = Some position" and "payload ''rotation'' = Some rotation"
    and "from_euler rotation = Inr m"
  shows "on_message from_euler p (Inr payload) s =
    (Inr (), s\<lparr>poses := (poses s)(renderer (track q) \<mapsto> (position, m))\<rparr>)"
  using assms by (simp add: on_message_def)

lemma well_formed_init: "well_formed init_system"
  by (simp add: well_formed_def init_system_def)

lemma well_formed_create_offer:
  assumes "well_formed s"
  shows "well_formed (snd (create_offer negotiate off sid s))"
proof -
  let ?s = "snd (create_offer negotiate off sid s)"
  let ?new = "\<lparr>session_id = sid, renderer = next_object s + 1, pc = next_object s\<rparr>"
  from assms have
    reg: "\<And>k x. sessions s k = Some x \<Longrightarrow>
        session_id x = k \<and> (\<exists>q. peers s (pc x) = Some q \<and> track q = x)"
    and pr: "\<And>p q. peers s p = Some q \<Longrightarrow>
        pc (track q) = p \<and> p < next_object s \<and> renderer (track q) < next_object s \<and>
        handler_session_id q = session_id (track q)"
    and inj: "\<And>p p' q q'. peers s p = Some q \<Longrightarrow> peers s p' = Some q' \<Longrightarrow>
        renderer (track q) = renderer (track q') \<Longrightarrow> p = p'"
    unfolding well_formed_def by blast+
  have fresh: "peers s (next_object s) = None"
    using pr[of "next_object s"] by (cases "peers s (next_object s)") auto
  have 1: "\<forall>k x. sessions ?s k = Some x \<longrightarrow>
      session_id x = k \<and> (\<exists>q. peers ?s (pc x) = Some q \<and> track q = x)"
  proof (intro allI impI)
    fix k x assume a: "sessions ?s k = Some x"
    show "session_id x = k \<and> (\<exists>q. peers ?s (pc x) = Some q \<and> track q = x)"
    proof (cases "k = sid")
      case True
      with a have "x = ?new" by (simp add: create_offer_effect)
      with True show ?thesis by (simp add: create_offer_effect)
    next
      case False
      with a have x: "sessions s k = Some x" by (simp add: create_offer_effect)
      from reg[OF x] obtain q where q: "session_id x = k" "peers s (pc x) = Some q" "track q = x"
        by blast
      from q(2) fresh have "pc x \<noteq> next_object s" by auto
      with q show ?thesis by (simp add: create_offer_effect)
    qed
  qed
  have 2: "\<forall>p q. peers ?s p = Some q \<longrightarrow>
      pc (track q) = p \<and> p < next_object ?s \<and> renderer (track q) < next_object ?s \<and>
      handler_session_id q = session_id (track q)"
  proof (intro allI impI)
    fix p q assume a: "peers ?s p = Some q"
    show "pc (track q) = p \<and> p < next_object ?s \<and> renderer (track q) < next_object ?s \<and>
      handler_session_id q = session_id (track q)"
    proof (cases "p = next_object s")
      case True
      with a show ?thesis by (auto simp: create_offer_effect)
    next
      case False
      with a have "peers s p = Some q" by (simp add: create_offer_effect)
      from pr[OF this] show ?thesis by (simp add: create_offer_effect)
    qed
  qed
  have 3: "\<forall>p p' q q'. peers ?s p = Some q \<longrightarrow> peers ?s p' = Some q' \<longrightarrow>
      renderer (track q) = renderer (track q') \<longrightarrow> p = p'"
  proof (intro allI impI)
    fix p p' q q'
    assume a: "peers ?s p = Some q" and b: "peers ?s p' = Some q'"
      and r: "renderer (track q) = renderer (track q')"
    have old: "\<And>u v. u \<noteq> next_object s \<Longrightarrow> peers ?s u = Some v \<Longrightarrow>
        peers s u = Some v \<and> renderer (track v) < next_object s"
      using pr by (simp add: create_offer_effect)
    have new: "\<And>v. peers ?s (next_object s) = Some v \<Longrightarrow> renderer (track v) = next_object s + 1"
      by (auto simp: create_offer_effect)
    show "p = p'"
    proof (cases "p = next_object s")
      case True
      show ?thesis
      proof (cases "p' = next_object s")
        case True
        with \<open>p = next_object s\<close> show ?thesis by simp
      next
        case False
        from old[OF False b] new[of q] a True r show ?thesis by simp
      qed
    next
      case False
      show ?thesis
      proof (cases "p' = next_object s")
        case True
        from old[OF False a] new[of q'] b True r show ?thesis by simp
      next
        case p': False
        from old[OF False a] old[OF p' b] r inj show ?thesis by blast
      qed
    qed
  qed
  from 1 2 3 show ?thesis unfolding well_formed_def by blast
qed

lemma well_formed_add_ice_candidate:
  "well_formed s \<Longrightarrow> well_formed (snd (add_ice_candidate cand sid s))"
  by (simp add: well_formed_def add_ice_candidate_frame)

lemma well_formed_on_message:
  "well_formed s \<Longrightarrow> well_formed (snd (on_message from_euler pcid m s))"
  by (simp add: well_formed_def on_message_frame)

lemma well_formed_on_connectionstatechange:
  assumes "well_formed s"
  shows "well_formed (snd (on_connectionstatechange pcid state s))"
proof (cases "peers s pcid")
  case None
  with assms show ?thesis by (simp add: on_connectionstatechange_def)
next
  case (Some p)
  show ?thesis
  proof (cases "state = ''failed''")
    case False
    with Some assms show ?thesis by (simp add: on_connectionstatechange_def)
  next
    case True
    let ?s = "snd (on_connectionstatechange pcid state s)"
    have S: "sessions ?s = (sessions s)(handler_session_id p := None)"
      and P: "peers ?s = (peers s)(pcid \<mapsto> p\<lparr>closed := True\<rparr>)"
      and N: "next_object ?s = next_object s"
      using Some True by (simp_all add: on_connectionstatechange_effect)
    have tr: "\<And>u v. peers ?s u = Some v \<Longrightarrow>
        \<exists>w. peers s u = Some w \<and> track v = track w \<and> handler_session_id v = handler_session_id w"
      using Some by (auto simp: P split: if_splits)
    have tr': "\<And>u w. peers s u = Some w \<Longrightarrow> \<exists>v. peers ?s u = Some v \<and> track v = track w"
      using Some by (auto simp: P)
    from assms have
      reg: "\<And>k x. sessions s k = Some x \<Longrightarrow>
          session_id x = k \<and> (\<exists>q. peers s (pc x) = Some q \<and> track q = x)"
      and pr: "\<And>p q. peers s p = Some q \<Longrightarrow>
          pc (track q) = p \<and> p < next_object s \<and> renderer (track q) < next_object s \<and>
          handler_session_id q = session_id (track q)"
      and inj: "\<And>p p' q q'. peers s p = Some q \<Longrightarrow> peers s p' = Some q' \<Longrightarrow>
          renderer (track q) = renderer (track q') \<Longrightarrow> p = p'"
      unfolding well_formed_def by blast+
    have 1: "\<forall>k x. sessions ?s k = Some x \<longrightarrow>
        session_id x = k \<and> (\<exists>q. peers ?s (pc x) = Some q \<and> track q = x)"
    proof (intro allI impI)
      fix k x assume "sessions ?s k = Some x"
      then have "sessions s k = Some x" by (simp add: S split: if_splits)
      from reg[OF this] tr' show
        "session_id x = k \<and> (\<exists>q. peers ?s (pc x) = Some q \<and> track q = x)"
        by metis
    qed
    have 2: "\<forall>u v. peers ?s u = Some v \<longrightarrow>
        pc (track v) = u \<and> u < next_object ?s \<and> renderer (track v) < next_object ?s \<and>
        handler_session_id v = session_id (track v)"
      using tr pr unfolding N by metis
    have 3: "\<forall>u u' v v'. peers ?s u = Some v \<longrightarrow> peers ?s u' = Some v' \<longrightarrow>
        renderer (track v) = renderer (track v') \<longrightarrow> u = u'"
      using tr inj by metis
    from 1 2 3 show ?thesis unfolding well_formed_def by blast
  qed
qed

lemma reachable_well_formed: "reachable s \<Longrightarrow> well_formed s"
proof (induction rule: reachable.induct)
  case start
  show ?case by (rule well_formed_init)
next
  case (offer s negotiate off sid)
  then show ?case by (simp add: well_formed_create_offer)
next
  case (ice s cand sid)
  then show ?case by (simp add: well_formed_add_ice_candidate)
next
  case (message s from_euler pcid m)
  then show ?case by (simp add: well_formed_on_message)
next
  case (statechange s pcid state)
  then show ?case by (simp add: well_formed_on_connectionstatechange)
qed

subsection \<open>Requests for unknown and for known sessions\<close>

lemma alnum_token_word: "alnum_token s \<Longrightarrow> token Word s"
  by (auto simp: alnum_token_def token_def is_word_def list_all_iff)

lemma py_int_snoc: "py_int (ds @ [d]) = 10 * py_int ds + digit_value d"
  by (simp add: py_int_def)

lemma digit_value_range: "is_digit d \<Longrightarrow> 0 \<le> digit_value d \<and> digit_value d \<le> 9"
  by (auto simp: is_digit_def digit_value_def)

lemma add_ice_candidate_dropped:
  "sessions s sid = Some x \<Longrightarrow> parse_candidate cand = None \<Longrightarrow>
     add_ice_candidate cand sid s = (Inr (), s)"
  by (simp add: add_ice_candidate_def)

text \<open>
  Claim C6. The claim reads: every line of the grammar is parsed into exactly its
  fields, integers in base ten, and every other line is a parse error that is logged and
  dropped while the request succeeds. The code matches the pattern against the start of
  the line only and lets \<^verbatim>\<open>\w\<close> stand for the two tokens. A line that goes on after
  the type, as the candidates of browsers do, is outside the grammar and is parsed all
  the same.
\<close>

theorem parse_candidate_accepts_longer_line:
  "grammar_line (candidate host_candidate) \<and>
   \<not> grammar_line (candidate srflx_candidate) \<and>
   parse_candidate srflx_candidate =
     Some \<lparr>component = 1, foundation = ''842163049'', ip = ''203.0.113.7'', port = 46154,
       priority = 1677729535, protocol = ''udp'', type = ''srflx'',
       rtc_sdpMid = ''0'', rtc_sdpMLineIndex = 0\<rparr>"
  by code_simp

text \<open>
  Claim C6, amended. For an ASCII line of at most 4300 characters: when the line starts
  with
  \<^verbatim>\<open>candidate:<foundation> <component> <protocol> <priority> <ip> <port> typ <type>\<close>
  (decimal integers, protocol and type made of letters, digits and underscores, a
  non-whitespace address), the parse gives exactly these fields, the type extended by
  the word characters that follow it (none when the line ends there), and the integers
  read in base ten. The parse fails exactly when the line does not start so; then the
  handler, for a known session, returns normally and changes nothing. Alphanumeric
  tokens are such tokens.
\<close>

theorem parse_candidate_matches_start_of_line:
  assumes "list_all is_ascii (candidate cand)"
    and "length (candidate cand) \<le> int_max_str_digits"
  shows
    "(\<forall>f c p pr a po ty rest.
        candidate cand = candidate_line f c p pr a po ty @ rest \<longrightarrow>
        token Digit f \<longrightarrow> token Digit c \<longrightarrow> token Word p \<longrightarrow> token Digit pr \<longrightarrow>
        token NonSpace a \<longrightarrow> token Digit po \<longrightarrow> token Word ty \<longrightarrow>
        parse_candidate cand =
          Some \<lparr>component = py_int c, foundation = f, ip = a, port = py_int po,
            priority = py_int pr, protocol = p, type = ty @ takeWhile is_word rest,
            rtc_sdpMid = sdpMid cand, rtc_sdpMLineIndex = sdpMLineIndex cand\<rparr>) \<and>
     (parse_candidate cand = None \<longleftrightarrow>
        \<not> (\<exists>f c p pr a po ty rest.
             candidate cand = candidate_line f c p pr a po ty @ rest \<and>
             token Digit f \<and> token Digit c \<and> token Word p \<and> token Digit pr \<and>
             token NonSpace a \<and> token Digit po \<and> token Word ty)) \<and>
     (\<forall>s sid x. sessions s sid = Some x \<longrightarrow> parse_candidate cand = None \<longrightarrow>
        add_ice_candidate cand sid s = (Inr (), s)) \<and>
     (\<forall>t. alnum_token t \<longrightarrow> token Word t) \<and>
     py_int [] = 0 \<and>
     (\<forall>ds d. py_int (ds @ [d]) = 10 * py_int ds + digit_value d) \<and>
     (\<forall>d. is_digit d \<longrightarrow> 0 \<le> digit_value d \<and> digit_value d \<le> 9)"
proof -
  have 1: "\<forall>f c p pr a po ty rest.
        candidate cand = candidate_line f c p pr a po ty @ rest \<longrightarrow>
        token Digit f \<longrightarrow> token Digit c \<longrightarrow> token Word p \<longrightarrow> token Digit pr \<longrightarrow>
        token NonSpace a \<longrightarrow> token Digit po \<longrightarrow> token Word ty \<longrightarrow>
        parse_candidate cand =
          Some \<lparr>component = py_int c, foundation = f, ip = a, port = py_int po,
            priority = py_int pr, protocol = p, type = ty @ takeWhile is_word rest,
            rtc_sdpMid = sdpMid cand, rtc_sdpMLineIndex = sdpMLineIndex cand\<rparr>"
    using parse_candidate_Some[of cand] by blast
  have 3: "\<forall>s sid x. sessions s sid = Some x \<longrightarrow> parse_candidate cand = None \<longrightarrow>
        add_ice_candidate cand sid s = (Inr (), s)"
    using add_ice_candidate_dropped[of _ _ _ cand] by blast
  have 4: "\<forall>t. alnum_token t \<longrightarrow> token Word t"
    using alnum_token_word by blast
  have 5: "py_int [] = 0" by (simp add: py_int_def)
  have 6: "\<forall>ds d. py_int (ds @ [d]) = 10 * py_int ds + digit_value d"
    using py_int_snoc by blast
  have 7: "\<forall>d. is_digit d \<longrightarrow> 0 \<le> digit_value d \<and> digit_value d \<le> 9"
    using digit_value_range by blast
  show ?thesis
    using 1 parse_candidate_None_iff[of cand] 3 4 5 6 7 by (intro conjI)
qed

text \<open>
  A host candidate is parsed into its fields; the empty candidate string that ends
  trickling is dropped, and the request on session \<open>a\<close> returns without a change.
\<close>

theorem parse_candidate_matches_start_of_line_witness:
  "list_all is_ascii (candidate host_candidate) \<and>
   length (candidate host_candidate) \<le> int_max_str_digits \<and>
   parse_candidate host_candidate =
     Some \<lparr>component = 1, foundation = ''1'', ip = ''192.168.1.5'', port = 54321,
       priority = 2122260223, protocol = ''udp'', type = ''host'',
       rtc_sdpMid = ''0'', rtc_sdpMLineIndex = 0\<rparr> \<and>
   list_all is_ascii (candidate end_of_candidates) \<and>
   length (candidate end_of_candidates) \<le> int_max_str_digits \<and>
   parse_candidate end_of_candidates = None \<and>
   sessions one_session ''a'' = Some \<lparr>session_id = ''a'', renderer = 1, pc = 0\<rparr> \<and>
   add_ice_candidate end_of_candidates ''a'' one_session = (Inr (), one_session)"
proof -
  have a1: "list_all is_ascii (candidate host_candidate)" by code_simp
  have a2: "list_all is_ascii (candidate end_of_candidates)" by code_simp
  have b1: "length (candidate host_candidate) \<le> int_max_str_digits" by code_simp
  have b2: "length (candidate end_of_candidates) \<le> int_max_str_digits" by code_simp
  have l: "candidate host_candidate =
      candidate_line ''1'' ''1'' ''udp'' ''2122260223'' ''192.168.1.5'' ''54321'' ''host'' @ []"
    by (simp add: host_candidate_def candidate_line_def)
  have t: "token Digit ''1''" "token Word ''udp''" "token Digit ''2122260223''"
    "token NonSpace ''192.168.1.5''" "token Digit ''54321''" "token Word ''host''"
    by code_simp+
  have v: "py_int ''1'' = 1" "py_int ''54321'' = 54321" "py_int ''2122260223'' = 2122260223"
    by code_simp+
  have m: "sdpMid host_candidate = ''0''" "sdpMLineIndex host_candidate = 0"
    by (simp_all add: host_candidate_def)
  from parse_candidate_matches_start_of_line[OF a1 b1] l t
  have "parse_candidate host_candidate =
      Some \<lparr>component = py_int ''1'', foundation = ''1'', ip = ''192.168.1.5'',
        port = py_int ''54321'', priority = py_int ''2122260223'', protocol = ''udp'',
        type = ''host'' @ takeWhile is_word [], rtc_sdpMid = sdpMid host_candidate,
        rtc_sdpMLineIndex = sdpMLineIndex host_candidate\<rparr>"
    by blast
  then have 1: "parse_candidate host_candidate =
     Some \<lparr>component = 1, foundation = ''1'', ip = ''192.168.1.5'', port = 54321,
       priority = 2122260223, protocol = ''udp'', type = ''host'',
       rtc_sdpMid = ''0'', rtc_sdpMLineIndex = 0\<rparr>"
    by (simp add: v m)
  have n: "parse_candidate end_of_candidates = None" by code_simp
  have s: "sessions one_session ''a'' = Some \<lparr>session_id = ''a'', renderer = 1, pc = 0\<rparr>"
    by (simp add: one_session_def create_offer_effect init_system_def)
  from parse_candidate_matches_start_of_line[OF a2 b2] s n
  have 2: "add_ice_candidate end_of_candidates ''a'' one_session = (Inr (), one_session)"
    by blast
  from a1 b1 1 a2 b2 n s 2 show ?thesis by blast
qed

text \<open>
  Claim C5. The claim reads: \<^verbatim>\<open>add_ice_candidate\<close> for a \<^verbatim>\<open>session_id\<close> that is not in
  the dictionary fails with a not-found error that is returned to the caller, and
  raises nothing. The code has no such answer: the lookup \<^verbatim>\<open>sessions[session_id]\<close>
  raises \<^verbatim>\<open>KeyError\<close>, which nothing in the handler catches.
\<close>

theorem add_ice_candidate_unknown_raises:
  "add_ice_candidate host_candidate ''ghost'' init_system =
     (Inl (KeyError ''ghost''), init_system)"
  by (simp add: add_ice_candidate_def init_system_def)

text \<open>
  Claim C5, amended. \<^verbatim>\<open>add_ice_candidate\<close> for a \<^verbatim>\<open>session_id\<close> that is not in the
  dictionary raises \<^verbatim>\<open>KeyError\<close> out of the handler, before the candidate is parsed,
  and changes nothing. So it does for the identifier of a peer connection's handler
  once that connection's state has changed to \<open>failed\<close>.
\<close>

theorem add_ice_candidate_absent_key_error:
  "(sessions s sid = None \<longrightarrow> add_ice_candidate cand sid s = (Inl (KeyError sid), s)) \<and>
   (\<forall>q. peers s p = Some q \<longrightarrow>
      add_ice_candidate cand (handler_session_id q)
          (snd (on_connectionstatechange p ''failed'' s)) =
        (Inl (KeyError (handler_session_id q)), snd (on_connectionstatechange p ''failed'' s)))"
proof (intro conjI allI impI)
  assume "sessions s sid = None"
  then show "add_ice_candidate cand sid s = (Inl (KeyError sid), s)"
    by (simp add: add_ice_candidate_def)
next
  fix q assume "peers s p = Some q"
  then have "sessions (snd (on_connectionstatechange p ''failed'' s)) (handler_session_id q) = None"
    by (simp add: on_connectionstatechange_effect)
  then show "add_ice_candidate cand (handler_session_id q)
          (snd (on_connectionstatechange p ''failed'' s)) =
        (Inl (KeyError (handler_session_id q)), snd (on_connectionstatechange p ''failed'' s))"
    by (simp add: add_ice_candidate_def)
qed

text \<open>
  Session \<open>a\<close> takes a candidate while it is registered, and the same request raises
  once its peer connection 0 has failed; session \<open>b\<close> was never created.
\<close>

theorem add_ice_candidate_absent_key_error_witness:
  "fst (add_ice_candidate host_candidate ''a'' one_session) = Inr () \<and>
   peers one_session 0 = Some \<lparr>closed = False,
     track = \<lparr>session_id = ''a'', renderer = 1, pc = 0\<rparr>, handler_session_id = ''a''\<rparr> \<and>
   fst (add_ice_candidate host_candidate ''a''
          (snd (on_connectionstatechange 0 ''failed'' one_session))) = Inl (KeyError ''a'') \<and>
   sessions one_session ''b'' = None \<and>
   add_ice_candidate host_candidate ''b'' one_session = (Inl (KeyError ''b''), one_session)"
proof -
  have p: "peers one_session 0 = Some \<lparr>closed = False,
     track = \<lparr>session_id = ''a'', renderer = 1, pc = 0\<rparr>, handler_session_id = ''a''\<rparr>"
    by (simp add: one_session_def create_offer_effect init_system_def)
  have a: "sessions one_session ''a'' = Some \<lparr>session_id = ''a'', renderer = 1, pc = 0\<rparr>"
    by (simp add: one_session_def create_offer_effect init_system_def)
  have b: "sessions one_session ''b'' = None"
    by (simp add: one_session_def create_offer_effect init_system_def)
  have ok: "parse_candidate host_candidate \<noteq> None" by code_simp
  have 1: "fst (add_ice_candidate host_candidate ''a'' one_session) = Inr ()"
    using a ok by (auto simp: add_ice_candidate_def)
  from add_ice_candidate_absent_key_error[of one_session "''b''" host_candidate 0] p b
  have "add_ice_candidate host_candidate ''a''
          (snd (on_connectionstatechange 0 ''failed'' one_session)) =
        (Inl (KeyError ''a''), snd (on_connectionstatechange 0 ''failed'' one_session))"
    and 3: "add_ice_candidate host_candidate ''b'' one_session = (Inl (KeyError ''b''), one_session)"
    by auto
  then have 2: "fst (add_ice_candidate host_candidate ''a''
          (snd (on_connectionstatechange 0 ''failed'' one_session))) = Inl (KeyError ''a'')"
    by simp
  from 1 p 2 b 3 show ?thesis by blast
qed

subsection \<open>Offers and the ownership of handles\<close>

lemma reachable_one_session: "reachable one_session"
  unfolding one_session_def by (rule reachable.offer) (rule reachable.start)


lemma one_session_fields:
  "sessions one_session = [''a'' \<mapsto> \<lparr>session_id = ''a'', renderer = 1, pc = 0\<rparr>]"
  "next_object one_session = 2"
  by (simp_all add: one_session_def create_offer_effect init_system_def)





lemma peer_handles_allocated:
  assumes "well_formed s" and "peers s p = Some q"
  shows "p < next_object s \<and> pc (track q) = p \<and> renderer (track q) < next_object s"
proof -
  from assms(1) have "\<forall>p q. peers s p = Some q \<longrightarrow>
         pc (track q) = p \<and> p < next_object s \<and> renderer (track q) < next_object s \<and>
         handler_session_id q = session_id (track q)"
    by (simp add: well_formed_def)
  with assms(2) show ?thesis by simp
qed

lemma registered_handles_allocated:
  assumes "well_formed s" and "sessions s sid = Some x"
  shows "pc x < next_object s \<and> renderer x < next_object s"
proof -
  from assms(1) have "\<forall>sid x. sessions s sid = Some x \<longrightarrow>
         session_id x = sid \<and> (\<exists>q. peers s (pc x) = Some q \<and> track q = x)"
    by (simp add: well_formed_def)
  with assms(2) obtain q where q: "peers s (pc x) = Some q" "track q = x"
    by blast
  from peer_handles_allocated[OF assms(1) q(1)] q(2) show ?thesis by simp
qed

text \<open>
  Claim C2. The claim reads: \<^verbatim>\<open>create_offer\<close> with a \<^verbatim>\<open>session_id\<close> that is already in
  the dictionary fails and leaves the dictionary as it was. The code never looks the
  identifier up: a second offer for \<open>a\<close> is answered like the first, and the entry of
  \<open>a\<close> is a new session afterwards.
\<close>

theorem create_offer_duplicate_accepted:
  "sessions one_session ''a'' = Some \<lparr>session_id = ''a'', renderer = 1, pc = 0\<rparr> \<and>
   fst (create_offer accept an_offer ''a'' one_session) =
     Inr \<lparr>sdp = ''v=0'', offer_type = ''answer''\<rparr> \<and>
   sessions (snd (create_offer accept an_offer ''a'' one_session)) ''a'' =
     Some \<lparr>session_id = ''a'', renderer = 3, pc = 2\<rparr>"
  by (simp add: create_offer_effect one_session_fields accept_def)

text \<open>
  Claim C2, amended. \<^verbatim>\<open>create_offer\<close> with a \<^verbatim>\<open>session_id\<close> that is already in the
  dictionary is not rejected on that account: its outcome is that of the negotiation on
  the new peer connection. Whatever that outcome, the entry of the identifier is
  replaced by a new session with a new renderer and the new peer connection, both
  different from the old session's; the other entries stay; the new peer connection is
  registered with its track and handler, and the peer connections there were, the old
  session's among them, stay as they are.
\<close>

theorem create_offer_replaces_session:
  assumes "reachable s" and "sessions s sid = Some old"
  shows
    "fst (create_offer negotiate off sid s) = negotiate (next_object s) off \<and>
     sessions (snd (create_offer negotiate off sid s)) =
       (sessions s)(sid \<mapsto>
          \<lparr>session_id = sid, renderer = next_object s + 1, pc = next_object s\<rparr>) \<and>
     renderer old \<noteq> next_object s + 1 \<and> pc old \<noteq> next_object s \<and>
     peers s (next_object s) = None \<and>
     peers (snd (create_offer negotiate off sid s)) =
       (peers s)(next_object s \<mapsto> \<lparr>closed = False,
          track = \<lparr>session_id = sid, renderer = next_object s + 1, pc = next_object s\<rparr>,
          handler_session_id = sid\<rparr>)"
proof -
  have wf: "well_formed s" using assms(1) by (rule reachable_well_formed)
  from registered_handles_allocated[OF wf assms(2)]
  have old: "renderer old \<noteq> next_object s + 1" "pc old \<noteq> next_object s" by auto
  have fresh: "peers s (next_object s) = None"
    using peer_handles_allocated[OF wf, of "next_object s"]
    by (cases "peers s (next_object s)") auto
  show ?thesis
    using old fresh by (simp add: create_offer_effect)
qed

text \<open>
  A second offer for \<open>a\<close> whose negotiation raises: the request fails with the
  library's error, and the entry of \<open>a\<close> has been replaced before.
\<close>

theorem create_offer_replaces_session_witness:
  "reachable one_session \<and>
   sessions one_session ''a'' = Some \<lparr>session_id = ''a'', renderer = 1, pc = 0\<rparr> \<and>
   fst (create_offer refuse an_offer ''a'' one_session) = Inl (LibraryError ''sdp'') \<and>
   sessions (snd (create_offer refuse an_offer ''a'' one_session)) =
     [''a'' \<mapsto> \<lparr>session_id = ''a'', renderer = 3, pc = 2\<rparr>]"
proof -
  have a: "sessions one_session ''a'' = Some \<lparr>session_id = ''a'', renderer = 1, pc = 0\<rparr>"
    by (simp add: one_session_fields)
  from create_offer_replaces_session[OF reachable_one_session a, of refuse an_offer]
  have "fst (create_offer refuse an_offer ''a'' one_session) = Inl (LibraryError ''sdp'')"
    and "sessions (snd (create_offer refuse an_offer ''a'' one_session)) =
     [''a'' \<mapsto> \<lparr>session_id = ''a'', renderer = 3, pc = 2\<rparr>]"
    by (simp_all add: one_session_fields refuse_def)
  with reachable_one_session a show ?thesis by blast
qed




end
